theory Spec2Isabelle
  imports Main "HOL-Library.Multiset"
begin

section \<open>Scoped initialization and cleanup: \<open>openvpn/init/scoped_acq.hpp\<close>\<close>

text \<open>
  The header has two layers. The templates \<open>sas_size\<close>, \<open>sas_element\<close>, \<open>rev_elts\<close> and
  the class structure of \<open>stk_builder\<close> are evaluated when the program is built; a failure
  there (\<open>static_assert\<close>, use of a class template that is declared but never defined)
  rejects the program, and nothing runs. The constructors of \<open>stk_builder\<close> and the
  constructor and destructor of \<open>ScopedAcqStack\<close> run later and have side effects: the
  constructor and the destructor of every guard object.

  The parameter pack \<open>Elements...\<close> of \<open>ScopedAcqStack<Elements...>\<close> is a list of guard
  kinds (a type variable \<open>'k\<close>), an index pack \<open>Is...\<close> is a list of naturals.
\<close>

subsection \<open>Build-time layer\<close>

datatype build_error =
    Sas_index_out_of_range      \<comment> \<open>\<open>static_assert(I < sas_size<ScopedAcqStack<>>::value)\<close>\<close>
  | Stk_builder_incomplete      \<comment> \<open>\<open>stk_builder<T>\<close> with no index: declared, never defined\<close>

text \<open>\<open>sas_size<ScopedAcqStack<Elements...>>::value\<close> is \<open>sizeof...(Elements)\<close>.\<close>

definition sas_size :: "'k list \<Rightarrow> nat" where
  "sas_size Elements = length Elements"

text \<open>
  \<open>sas_element<I, ScopedAcqStack<...>>::type\<close>. The specialisation for index \<open>0\<close> is more
  specialised than the recursion case, so it is the one chosen at \<open>I = 0\<close>; the recursion
  case steps to \<open>I - 1\<close> on the tail; on the empty list the \<open>static_assert\<close> fires.
\<close>

fun sas_element :: "nat \<Rightarrow> 'k list \<Rightarrow> build_error + 'k" where
  "sas_element 0 (Head # Tail) = Inr Head"
| "sas_element (Suc I) (Head # Tail) = sas_element I Tail"
| "sas_element I [] = Inl Sas_index_out_of_range"

text \<open>
  An instantiated \<open>stk_builder<T, Is...>\<close> class: the base case \<open>stk_builder<T, I>\<close>, or the
  recursive case \<open>stk_builder<T, I, Is...>\<close> with its base class \<open>stk_builder<T, Is...>\<close>.
  Each carries the index \<open>I\<close> and the guard kind \<open>sas_element<I, T>::type\<close> that its
  constructor body creates.
\<close>

datatype 'k stk_builder_class =
    Stk_base nat 'k
  | Stk_rec nat 'k "'k stk_builder_class"

text \<open>
  Instantiating \<open>stk_builder<T, Is...>\<close>. The primary template is only declared, and both
  partial specialisations need at least one index, so the empty pack has no definition.
\<close>

fun stk_builder :: "'k list \<Rightarrow> nat list \<Rightarrow> build_error + 'k stk_builder_class" where
  "stk_builder T [] = Inl Stk_builder_incomplete"
| "stk_builder T [I] =
     (case sas_element I T of Inl e \<Rightarrow> Inl e | Inr k \<Rightarrow> Inr (Stk_base I k))"
| "stk_builder T (I # Is) =
     (case stk_builder T Is of
        Inl e \<Rightarrow> Inl e
      | Inr base \<Rightarrow>
          (case sas_element I T of Inl e \<Rightarrow> Inl e | Inr k \<Rightarrow> Inr (Stk_rec I k base)))"

text \<open>
  \<open>rev_elts<T, I, Is...> : rev_elts<T, I - 1, Is..., I - 1>\<close> and
  \<open>rev_elts<T, 0, Is...> : stk_builder<T, Is...>\<close>.
\<close>

fun rev_elts :: "'k list \<Rightarrow> nat \<Rightarrow> nat list \<Rightarrow> build_error + 'k stk_builder_class" where
  "rev_elts T 0 Is = stk_builder T Is"
| "rev_elts T (Suc I) Is = rev_elts T I (Is @ [I])"

text \<open>The index pack that \<open>rev_elts<T, I, Is...>\<close> hands to \<open>stk_builder\<close>.\<close>

fun rev_elts_indices :: "nat \<Rightarrow> nat list \<Rightarrow> nat list" where
  "rev_elts_indices 0 Is = Is"
| "rev_elts_indices (Suc I) Is = rev_elts_indices I (Is @ [I])"

subsection \<open>Run-time layer\<close>

text \<open>
  A guard object is owned through a \<open>std::unique_ptr<ScopedAcq>\<close>. The model names the
  object by the index \<open>I\<close> of the \<open>stk_builder<T, I, ...>\<close> constructor that created it,
  together with its kind. The side effects of the guards are recorded in a log, as the
  message queue of the unit test does: the constructor of a guard is its acquire step,
  the destructor its release step.
\<close>

type_synonym 'k handle = "nat \<times> 'k"

datatype 'k event =
    Acquire nat 'k
  | Acquire_failed nat 'k
  | Release nat 'k
  | Message string

fun acq :: "'k handle \<Rightarrow> 'k event" where
  "acq (I, k) = Acquire I k"

fun rel :: "'k handle \<Rightarrow> 'k event" where
  "rel (I, k) = Release I k"

text \<open>
  \<open>sas_stack\<close> is \<open>std::stack<std::unique_ptr<ScopedAcq>>\<close>, an adaptor over \<open>std::deque\<close>:
  the list holds the handles front to back, \<open>push\<close> appends at the back, \<open>top\<close> is the
  last element and \<open>pop\<close> removes it, destroying the guard it owns.
\<close>

record 'k sas_stk =
  stack :: "'k handle list"
  log :: "'k event list"

definition stack_push :: "'k handle \<Rightarrow> 'k sas_stk \<Rightarrow> 'k sas_stk" where
  "stack_push h s = s\<lparr>stack := stack s @ [h]\<rparr>"

definition stack_empty :: "'k sas_stk \<Rightarrow> bool" where
  "stack_empty s = (stack s = [])"

definition stack_pop :: "'k sas_stk \<Rightarrow> 'k sas_stk" where
  "stack_pop s = s\<lparr>stack := butlast (stack s), log := log s @ [rel (last (stack s))]\<rparr>"

text \<open>
  The body of a \<open>stk_builder\<close> constructor: \<open>new typename sas_element<I, T>::type\<close> runs
  the guard's constructor, then the handle is pushed. Whether the guard's constructor
  throws is a parameter \<open>thr\<close> of the model, by position and kind. \<open>Inl\<close> is the state in
  which the exception leaves the body.
\<close>

definition stk_builder_body ::
  "(nat \<Rightarrow> 'k \<Rightarrow> bool) \<Rightarrow> nat \<Rightarrow> 'k \<Rightarrow> 'k sas_stk \<Rightarrow> 'k sas_stk + 'k sas_stk" where
  "stk_builder_body thr I k s =
     (if thr I k then Inl (s\<lparr>log := log s @ [Acquire_failed I k]\<rparr>)
      else Inr (stack_push (I, k) (s\<lparr>log := log s @ [Acquire I k]\<rparr>)))"

text \<open>
  Constructing a \<open>stk_builder\<close> object: the constructor of the base class runs first, then
  the body of the class itself. An exception in the base class skips the body.
\<close>

fun stk_builder_ctor ::
  "(nat \<Rightarrow> 'k \<Rightarrow> bool) \<Rightarrow> 'k stk_builder_class \<Rightarrow> 'k sas_stk \<Rightarrow> 'k sas_stk + 'k sas_stk" where
  "stk_builder_ctor thr (Stk_base I k) s = stk_builder_body thr I k s"
| "stk_builder_ctor thr (Stk_rec I k base) s =
     (case stk_builder_ctor thr base s of
        Inl e \<Rightarrow> Inl e
      | Inr s' \<Rightarrow> stk_builder_body thr I k s')"

text \<open>
  The destructor of the container itself (not the \<open>pop\<close> loop) destroys every element it
  holds; the order is the standard library's, which the header does not choose. It is a
  parameter \<open>dord\<close>: the order in which the handles of a container are destroyed.
\<close>

definition sas_stack_dtor :: "('k handle list \<Rightarrow> 'k handle list) \<Rightarrow> 'k sas_stk \<Rightarrow> 'k sas_stk" where
  "sas_stack_dtor dord s = s\<lparr>stack := [], log := log s @ map rel (dord (stack s))\<rparr>"

datatype 'k outcome =
    Build_failed build_error
  | Thrown "'k event list"
  | Built "'k handle list" "'k event list"

text \<open>
  The constructor of \<open>ScopedAcqStack<Elements...>\<close>, started with log \<open>lg\<close>. The local
  \<open>rev\<close> (the state \<open>r\<close>) is built on an empty \<open>sas_stk\<close>. If a guard's constructor
  throws, \<open>rev\<close> is unwound, which destroys \<open>rev.stack\<close> with the handles pushed so far,
  and the exception leaves the constructor. Otherwise \<open>rev.stack\<close> is moved into the
  member \<open>stack_\<close>; the moved-from \<open>rev.stack\<close> owns nothing when \<open>rev\<close> goes out of
  scope.
\<close>

definition ScopedAcqStack_ctor ::
  "(nat \<Rightarrow> 'k \<Rightarrow> bool) \<Rightarrow> ('k handle list \<Rightarrow> 'k handle list) \<Rightarrow> 'k list \<Rightarrow> 'k event list
     \<Rightarrow> 'k outcome" where
  "ScopedAcqStack_ctor thr dord Elements lg =
     (case rev_elts Elements (sas_size Elements) [] of
        Inl e \<Rightarrow> Build_failed e
      | Inr cls \<Rightarrow>
          (case stk_builder_ctor thr cls \<lparr>stack = [], log = lg\<rparr> of
             Inl r \<Rightarrow> Thrown (log (sas_stack_dtor dord r))
           | Inr r \<Rightarrow> Built (stack r) (log r)))"

text \<open>
  The destructor of \<open>ScopedAcqStack\<close>: \<open>while (!stack_.empty()) stack_.pop();\<close>. The loop
  is a partial function: \<open>None\<close> would be a loop that never ends.
\<close>

partial_function (option) dtor_loop :: "'k sas_stk \<Rightarrow> 'k sas_stk option" where
  "dtor_loop s = (if stack_empty s then Some s else dtor_loop (stack_pop s))"

definition ScopedAcqStack_dtor :: "'k handle list \<Rightarrow> 'k event list \<Rightarrow> 'k sas_stk option" where
  "ScopedAcqStack_dtor stack_m lg = dtor_loop \<lparr>stack = stack_m, log = lg\<rparr>"

datatype 'k scope_result =
    Scope_build_failed build_error
  | Scope_thrown "'k event list"
  | Scope_done "'k handle list" "'k event list"

text \<open>
  A block that declares one \<open>ScopedAcqStack<Elements...>\<close> and then runs user code that
  logs the events \<open>inside\<close>, as the unit test does: the constructor, the user code, and at
  the end of the block the destructor. When the constructor throws, neither the user
  code nor the destructor runs. After the \<open>pop\<close> loop the member \<open>stack_\<close> is destroyed
  as well; \<open>Scope_done\<close> carries what it still holds at that point and the final log.
\<close>

definition ScopedAcqStack_scope ::
  "(nat \<Rightarrow> 'k \<Rightarrow> bool) \<Rightarrow> ('k handle list \<Rightarrow> 'k handle list) \<Rightarrow> 'k list \<Rightarrow> 'k event list
     \<Rightarrow> 'k event list \<Rightarrow> 'k scope_result option" where
  "ScopedAcqStack_scope thr dord Elements inside lg =
     (case ScopedAcqStack_ctor thr dord Elements lg of
        Build_failed e \<Rightarrow> Some (Scope_build_failed e)
      | Thrown lg' \<Rightarrow> Some (Scope_thrown lg')
      | Built stack_m lg' \<Rightarrow>
          (case ScopedAcqStack_dtor stack_m (lg' @ inside) of
             None \<Rightarrow> None
           | Some s \<Rightarrow> Some (Scope_done (stack s) (log s))))"

subsection \<open>The unit test \<open>TEST(misc, scoped_acq)\<close>\<close>

datatype res_kind = Res1_RAII | Res2_RAII | Res3_RAII

fun res_name :: "res_kind \<Rightarrow> string" where
  "res_name Res1_RAII = ''Res1_RAII''"
| "res_name Res2_RAII = ''Res2_RAII''"
| "res_name Res3_RAII = ''Res3_RAII''"

text \<open>
  The constructor of each test guard logs \<open>"<name> ctor"\<close>, its destructor
  \<open>"<name> dtor"\<close>; none of them throws, so a failed acquire logs nothing.
\<close>

fun log_msg :: "res_kind event \<Rightarrow> string list" where
  "log_msg (Acquire I k) = [res_name k @ '' ctor'']"
| "log_msg (Release I k) = [res_name k @ '' dtor'']"
| "log_msg (Message m) = [m]"
| "log_msg (Acquire_failed I k) = []"

text \<open>\<open>RAII_checker::get_messages\<close>: the queue joined with the delimiter \<open>" | "\<close>.\<close>

fun get_messages_loop :: "string \<Rightarrow> string list \<Rightarrow> string" where
  "get_messages_loop delim [] = []"
| "get_messages_loop delim (m # Q) = delim @ m @ get_messages_loop '' | '' Q"

definition get_messages :: "string list \<Rightarrow> string" where
  "get_messages Q = get_messages_loop [] Q"

definition misc_scoped_acq_result :: string where
  "misc_scoped_acq_result =
     ''Res1_RAII ctor | Res2_RAII ctor | Res3_RAII ctor''
     @ '' | inside the scope | ''
     @ ''Res3_RAII dtor | Res2_RAII dtor | Res1_RAII dtor''"

definition test_scoped_acq :: "(res_kind handle list \<Rightarrow> res_kind handle list) \<Rightarrow> string option" where
  "test_scoped_acq dord =
     (case ScopedAcqStack_scope (\<lambda>I k. False) dord [Res1_RAII, Res2_RAII, Res3_RAII]
             [Message ''inside the scope''] [] of
        Some (Scope_done stack_m lg) \<Rightarrow> Some (get_messages (concat (map log_msg lg)))
      | _ \<Rightarrow> None)"

subsection \<open>Notions for stating the properties\<close>

text \<open>The handle of every position of the guard list, in declared order.\<close>

definition handles :: "'k list \<Rightarrow> 'k handle list" where
  "handles T = map (\<lambda>i. (i, T ! i)) [0..<length T]"

text \<open>The constructor bodies of a \<open>stk_builder\<close> class in the order in which they run.\<close>

fun ctor_order :: "'k stk_builder_class \<Rightarrow> 'k handle list" where
  "ctor_order (Stk_base I k) = [(I, k)]"
| "ctor_order (Stk_rec I k base) = ctor_order base @ [(I, k)]"

text \<open>Running a list of constructor bodies one after the other, up to the first throw.\<close>

fun run_bodies ::
  "(nat \<Rightarrow> 'k \<Rightarrow> bool) \<Rightarrow> 'k handle list \<Rightarrow> 'k sas_stk \<Rightarrow> 'k sas_stk + 'k sas_stk" where
  "run_bodies thr [] s = Inr s"
| "run_bodies thr ((I, k) # hs) s =
     (case stk_builder_body thr I k s of
        Inl e \<Rightarrow> Inl e
      | Inr s' \<Rightarrow> run_bodies thr hs s')"

text \<open>
  \<open>observed_before a b tr\<close>: both events occur in the log \<open>tr\<close>, and \<open>a\<close> occurs first.
\<close>

fun first_index :: "'a \<Rightarrow> 'a list \<Rightarrow> nat option" where
  "first_index a [] = None"
| "first_index a (x # xs) = (if x = a then Some 0 else map_option Suc (first_index a xs))"

definition observed_before :: "'a \<Rightarrow> 'a \<Rightarrow> 'a list \<Rightarrow> bool" where
  "observed_before a b tr =
     (case first_index a tr of
        None \<Rightarrow> False
      | Some m \<Rightarrow> (case first_index b tr of None \<Rightarrow> False | Some n \<Rightarrow> m < n))"

text \<open>A guard's constructor throws nowhere in the list.\<close>

definition no_throw :: "(nat \<Rightarrow> 'k \<Rightarrow> bool) \<Rightarrow> 'k list \<Rightarrow> bool" where
  "no_throw thr T = (\<forall>i < length T. \<not> thr i (T ! i))"

text \<open>Position \<open>k\<close> is the first whose constructor throws.\<close>

definition first_throw :: "(nat \<Rightarrow> 'k \<Rightarrow> bool) \<Rightarrow> 'k list \<Rightarrow> nat \<Rightarrow> bool" where
  "first_throw thr T k = (k < length T \<and> thr k (T ! k) \<and> (\<forall>i < k. \<not> thr i (T ! i)))"

text \<open>The number of acquire and of release events of one kind in a log.\<close>

fun is_acquire_of :: "'k \<Rightarrow> 'k event \<Rightarrow> bool" where
  "is_acquire_of k (Acquire I k') = (k' = k)"
| "is_acquire_of k _ = False"

fun is_release_of :: "'k \<Rightarrow> 'k event \<Rightarrow> bool" where
  "is_release_of k (Release I k') = (k' = k)"
| "is_release_of k _ = False"

text \<open>Behaviours of the guards' constructors: none throws, or the one at position \<open>k\<close>.\<close>

definition never_throws :: "nat \<Rightarrow> 'k \<Rightarrow> bool" where
  "never_throws I k = False"

definition throws_at :: "nat \<Rightarrow> nat \<Rightarrow> 'k \<Rightarrow> bool" where
  "throws_at n I k = (I = n)"

text \<open>
  Orders in which a container's destructor may destroy its elements: front to back (what
  the destructor of \<open>std::deque\<close> does in libstdc++ and libc++ for a deque that fits one
  block) and back to front. Whatever the order, every element is destroyed exactly once.
\<close>

definition front_to_back :: "'k handle list \<Rightarrow> 'k handle list" where
  "front_to_back hs = hs"

definition back_to_front :: "'k handle list \<Rightarrow> 'k handle list" where
  "back_to_front hs = rev hs"

definition destroys_all :: "('k handle list \<Rightarrow> 'k handle list) \<Rightarrow> bool" where
  "destroys_all dord = (\<forall>hs. mset (dord hs) = mset hs)"

section \<open>Auxiliary facts\<close>

subsection \<open>Instantiation\<close>

lemma sas_element_in_range: "i < length T \<Longrightarrow> sas_element i T = Inr (T ! i)"
  by (induction i T rule: sas_element.induct) simp_all

lemma sas_element_out_of_range:
  "length T \<le> i \<Longrightarrow> sas_element i T = Inl Sas_index_out_of_range"
  by (induction i T rule: sas_element.induct) simp_all

lemma rev_elts_indices_eq: "rev_elts_indices I Is = Is @ rev [0..<I]"
  by (induction I arbitrary: Is) simp_all

lemma rev_elts_eq: "rev_elts T I Is = stk_builder T (rev_elts_indices I Is)"
  by (induction I arbitrary: Is) simp_all

lemma stk_builder_ok:
  "Is \<noteq> [] \<Longrightarrow> \<forall>I \<in> set Is. I < length T \<Longrightarrow>
     \<exists>cls. stk_builder T Is = Inr cls \<and> ctor_order cls = map (\<lambda>I. (I, T ! I)) (rev Is)"
proof (induction Is rule: list_nonempty_induct)
  case (single I)
  then show ?case by (simp add: sas_element_in_range)
next
  case (cons I Is)
  from cons.hyps obtain J Js where Is: "Is = J # Js" by (cases Is) auto
  from cons.IH cons.prems obtain base where
    base: "stk_builder T Is = Inr base" "ctor_order base = map (\<lambda>I. (I, T ! I)) (rev Is)"
    by auto
  from cons.prems have I: "sas_element I T = Inr (T ! I)"
    by (simp add: sas_element_in_range)
  have "stk_builder T (I # Is) = Inr (Stk_rec I (T ! I) base)"
    using base(1) I unfolding Is by simp
  with base(2) show ?case by simp
qed

lemma run_bodies_append:
  "run_bodies thr (xs @ ys) s =
     (case run_bodies thr xs s of Inl e \<Rightarrow> Inl e | Inr s' \<Rightarrow> run_bodies thr ys s')"
  by (induction xs arbitrary: s) (auto split: sum.splits)

lemma stk_builder_ctor_run: "stk_builder_ctor thr cls s = run_bodies thr (ctor_order cls) s"
  by (induction cls arbitrary: s) (auto simp: run_bodies_append split: sum.splits)

lemma run_bodies_no_throw:
  "\<forall>h \<in> set hs. \<not> thr (fst h) (snd h) \<Longrightarrow>
     run_bodies thr hs s = Inr (s\<lparr>stack := stack s @ hs, log := log s @ map acq hs\<rparr>)"
  by (induction hs arbitrary: s) (auto simp: stk_builder_body_def stack_push_def)

lemma run_bodies_throw:
  "\<forall>h \<in> set pre. \<not> thr (fst h) (snd h) \<Longrightarrow> thr I k \<Longrightarrow>
     run_bodies thr (pre @ (I, k) # post) s =
       Inl (s\<lparr>stack := stack s @ pre, log := log s @ map acq pre @ [Acquire_failed I k]\<rparr>)"
  by (simp add: run_bodies_append run_bodies_no_throw stk_builder_body_def)

lemma rev_elts_handles:
  "T \<noteq> [] \<Longrightarrow> \<exists>cls. rev_elts T (sas_size T) [] = Inr cls \<and> ctor_order cls = handles T"
  using stk_builder_ok [of "rev [0..<length T]" T]
  by (simp add: rev_elts_eq rev_elts_indices_eq sas_size_def handles_def)

lemma ctor_built:
  assumes "T \<noteq> []" "no_throw thr T"
  shows "ScopedAcqStack_ctor thr dord T lg = Built (handles T) (lg @ map acq (handles T))"
proof -
  from rev_elts_handles [OF assms(1)] obtain cls where
    cls: "rev_elts T (sas_size T) [] = Inr cls" "ctor_order cls = handles T" by blast
  have "\<forall>h \<in> set (handles T). \<not> thr (fst h) (snd h)"
    using assms(2) by (auto simp: handles_def no_throw_def)
  then show ?thesis
    by (simp add: ScopedAcqStack_ctor_def cls stk_builder_ctor_run run_bodies_no_throw)
qed

lemma length_handles: "length (handles T) = length T"
  by (simp add: handles_def)

lemma handles_nth: "k < length T \<Longrightarrow> handles T ! k = (k, T ! k)"
  by (simp add: handles_def)

lemma take_handles: "k \<le> length T \<Longrightarrow> take k (handles T) = handles (take k T)"
  by (simp add: handles_def take_map take_upt min_def)

lemma handles_split:
  assumes k: "k < length T"
  shows "handles T = handles (take k T) @ (k, T ! k) # drop (Suc k) (handles T)"
proof -
  have "handles T = take k (handles T) @ handles T ! k # drop (Suc k) (handles T)"
    using k by (intro id_take_nth_drop) (simp add: length_handles)
  then show ?thesis using k by (simp add: take_handles handles_nth)
qed

lemma ctor_thrown:
  assumes "first_throw thr T k"
  shows "ScopedAcqStack_ctor thr dord T lg =
           Thrown (lg @ map acq (handles (take k T)) @ [Acquire_failed k (T ! k)]
                      @ map rel (dord (handles (take k T))))"
proof -
  from assms have k: "k < length T" "thr k (T ! k)" "\<forall>i < k. \<not> thr i (T ! i)"
    by (simp_all add: first_throw_def)
  then have "T \<noteq> []" by auto
  from rev_elts_handles [OF this] obtain cls where
    cls: "rev_elts T (sas_size T) [] = Inr cls" "ctor_order cls = handles T" by blast
  have pre: "\<forall>h \<in> set (handles (take k T)). \<not> thr (fst h) (snd h)"
    using k by (auto simp: handles_def)
  have "stk_builder_ctor thr cls \<lparr>stack = [], log = lg\<rparr> =
          run_bodies thr (handles (take k T) @ (k, T ! k) # drop (Suc k) (handles T))
            \<lparr>stack = [], log = lg\<rparr>"
    using handles_split [OF k(1)] by (simp add: stk_builder_ctor_run cls(2))
  also have "\<dots> = Inl \<lparr>stack = handles (take k T),
      log = lg @ map acq (handles (take k T)) @ [Acquire_failed k (T ! k)]\<rparr>"
    by (simp add: run_bodies_throw [OF pre k(2)])
  finally show ?thesis
    by (simp add: ScopedAcqStack_ctor_def cls(1) sas_stack_dtor_def)
qed

lemma dtor_loop_eq:
  "dtor_loop s = Some (s\<lparr>stack := [], log := log s @ map rel (rev (stack s))\<rparr>)"
proof (induction "stack s" arbitrary: s rule: rev_induct)
  case Nil
  then show ?case by (subst dtor_loop.simps) (simp add: stack_empty_def)
next
  case (snoc h hs)
  from snoc(2) have st: "stack s = hs @ [h]" by simp
  have "hs = stack (stack_pop s)" by (simp add: stack_pop_def st)
  from snoc(1) [OF this] show ?case
    by (subst dtor_loop.simps) (simp add: stack_empty_def stack_pop_def st)
qed

lemma scope_done:
  assumes "T \<noteq> []" "no_throw thr T"
  shows "ScopedAcqStack_scope thr dord T inside lg =
           Some (Scope_done [] (lg @ map acq (handles T) @ inside @ map rel (rev (handles T))))"
  by (simp add: ScopedAcqStack_scope_def ctor_built [OF assms] ScopedAcqStack_dtor_def dtor_loop_eq)

lemma first_index_nth: "distinct xs \<Longrightarrow> i < length xs \<Longrightarrow> first_index (xs ! i) xs = Some i"
proof (induction xs arbitrary: i)
  case Nil
  then show ?case by simp
next
  case (Cons x xs)
  show ?case
  proof (cases i)
    case 0
    then show ?thesis by simp
  next
    case (Suc j)
    with Cons.prems have "xs ! j \<noteq> x" by auto
    with Cons Suc show ?thesis by simp
  qed
qed

lemma observed_before_nth:
  "distinct tr \<Longrightarrow> m < n \<Longrightarrow> n < length tr \<Longrightarrow> observed_before (tr ! m) (tr ! n) tr"
  by (simp add: observed_before_def first_index_nth)

lemma map_acq_handles: "map acq (handles T) = map (\<lambda>i. Acquire i (T ! i)) [0..<length T]"
  by (simp add: handles_def)

lemma map_rel_handles: "map rel (handles T) = map (\<lambda>i. Release i (T ! i)) [0..<length T]"
  by (simp add: handles_def)

lemma distinct_handles: "distinct (handles T)"
  by (simp add: handles_def distinct_map inj_on_def)

lemma distinct_acq_handles: "distinct (map acq (handles T))"
  by (simp add: map_acq_handles distinct_map inj_on_def)

lemma distinct_rel_handles: "distinct (map rel (handles T))"
  by (simp add: map_rel_handles distinct_map inj_on_def)

subsection \<open>Counting events\<close>

lemma destroys_all_front_to_back: "destroys_all front_to_back"
  by (simp add: destroys_all_def front_to_back_def)

lemma destroys_all_back_to_front: "destroys_all back_to_front"
  by (simp add: destroys_all_def back_to_front_def)

lemma destroys_all_set: "destroys_all dord \<Longrightarrow> set (dord hs) = set hs"
  by (rule mset_eq_setD) (simp add: destroys_all_def)

lemma destroys_all_count:
  assumes "destroys_all dord"
  shows "count_list (dord hs) h = count_list hs h"
proof -
  have "count (mset (dord hs)) h = count (mset hs) h"
    using assms by (simp add: destroys_all_def)
  then show ?thesis by (simp only: count_mset)
qed

lemma destroys_all_single:
  assumes "destroys_all dord"
  shows "dord [h] = [h]"
proof -
  have "mset (dord [h]) = {#h#}" using assms by (simp add: destroys_all_def)
  then show ?thesis by simp
qed

lemma count_list_distinct: "distinct xs \<Longrightarrow> x \<in> set xs \<Longrightarrow> count_list xs x = 1"
  by (induction xs) (auto simp: count_list_0_iff)

lemma rel_in_releases:
  "Release i k \<in> set (map rel hs) \<longleftrightarrow> (i, k) \<in> set hs"
  by (induction hs) auto

lemma count_rel: "count_list (map rel hs) (Release i k) = count_list hs (i, k)"
  by (induction hs) auto

lemma count_acq: "count_list (map acq hs) (Acquire i k) = count_list hs (i, k)"
  by (induction hs) auto

lemma count_acq_rel [simp]: "count_list (map acq hs) (Release i k) = 0"
   "count_list (map rel hs) (Acquire i k) = 0"
  by (induction hs) auto

lemma handle_in_handles: "(i, k) \<in> set (handles T) \<longleftrightarrow> i < length T \<and> k = T ! i"
  by (auto simp: handles_def)

lemma count_handles: "i < length T \<Longrightarrow> count_list (handles T) (i, T ! i) = 1"
  by (simp add: count_list_distinct distinct_handles handle_in_handles)

lemma ex_first_throw: "\<not> no_throw thr T \<Longrightarrow> \<exists>k. first_throw thr T k"
proof -
  assume "\<not> no_throw thr T"
  then obtain i where i: "i < length T \<and> thr i (T ! i)" by (auto simp: no_throw_def)
  define k where "k = (LEAST i. i < length T \<and> thr i (T ! i))"
  have "k < length T \<and> thr k (T ! k)" unfolding k_def using i by (rule LeastI)
  moreover have "\<forall>m < k. \<not> thr m (T ! m)"
  proof (intro allI impI notI)
    fix m assume m: "m < k" "thr m (T ! m)"
    with \<open>k < length T \<and> thr k (T ! k)\<close> have "m < length T \<and> thr m (T ! m)" by simp
    then have "k \<le> m" unfolding k_def by (rule Least_le)
    with m show False by simp
  qed
  ultimately show ?thesis by (auto simp: first_throw_def)
qed

lemma ctor_empty: "ScopedAcqStack_ctor thr dord [] lg = Build_failed Stk_builder_incomplete"
  by (simp add: ScopedAcqStack_ctor_def sas_size_def)

lemma scope_thrown:
  assumes "first_throw thr T k"
  shows "ScopedAcqStack_scope thr dord T inside lg =
           Some (Scope_thrown (lg @ map acq (handles (take k T)) @ [Acquire_failed k (T ! k)]
                      @ map rel (dord (handles (take k T)))))"
  by (simp add: ScopedAcqStack_scope_def ctor_thrown [OF assms])

lemma scope_done_iff:
  assumes "ScopedAcqStack_scope thr dord T inside lg = Some (Scope_done stk lg')"
  shows "T \<noteq> [] \<and> no_throw thr T"
proof (intro conjI notI)
  assume "T = []"
  with assms show False by (simp add: ScopedAcqStack_scope_def ctor_empty)
next
  show "no_throw thr T"
  proof (rule ccontr)
    assume "\<not> no_throw thr T"
    then obtain k where "first_throw thr T k" using ex_first_throw by blast
    from scope_thrown [OF this] assms show False by simp
  qed
qed

lemma acq_in_acquires: "Acquire i k \<in> set (map acq hs) \<longleftrightarrow> (i, k) \<in> set hs"
  by (induction hs) auto

lemma not_in_acquires [simp]:
  "Release i k \<notin> set (map acq hs)" "Acquire_failed i k \<notin> set (map acq hs)"
  by (induction hs) auto

lemma not_in_releases [simp]:
  "Acquire i k \<notin> set (map rel hs)" "Acquire_failed i k \<notin> set (map rel hs)"
  by (induction hs) auto

lemma count_other [simp]:
  "count_list (map acq hs) (Acquire_failed i k) = 0"
  "count_list (map rel hs) (Acquire_failed i k) = 0"
  by (induction hs) auto

lemma count_rev: "count_list (rev xs) x = count_list xs x"
  by (induction xs) auto

lemma filter_acquire_of:
  "length (filter (is_acquire_of k) (map acq hs)) = length (filter (\<lambda>x. x = k) (map snd hs))"
  by (induction hs) auto

lemma filter_release_of:
  "length (filter (is_release_of k) (map rel hs)) = length (filter (\<lambda>x. x = k) (map snd hs))"
  by (induction hs) auto

lemma map_snd_handles: "map snd (handles T) = T"
  by (simp add: handles_def o_def map_nth)

lemma count_list_filter_eq: "count_list xs k = length (filter (\<lambda>x. x = k) xs)"
  by (induction xs) auto

lemma acquires_of_kind:
  "length (filter (is_acquire_of k) (map acq (handles T))) = count_list T k"
proof -
  have "length (filter (is_acquire_of k) (map acq (handles T))) =
          length (filter (\<lambda>x. x = k) (map snd (handles T)))"
    by (rule filter_acquire_of)
  then show ?thesis by (simp only: map_snd_handles count_list_filter_eq)
qed

lemma releases_of_kind:
  "length (filter (is_release_of k) (map rel (rev (handles T)))) = count_list T k"
proof -
  have "length (filter (is_release_of k) (map rel (rev (handles T)))) =
          length (filter (\<lambda>x. x = k) (map snd (rev (handles T))))"
    by (rule filter_release_of)
  also have "map snd (rev (handles T)) = rev T"
    by (simp only: rev_map [symmetric] map_snd_handles)
  also have "length (filter (\<lambda>x. x = k) (rev T)) = length (filter (\<lambda>x. x = k) T)"
    by (simp only: rev_filter [symmetric] length_rev)
  finally show ?thesis by (simp only: count_list_filter_eq)
qed

section \<open>The ordered guard list\<close>

text \<open>
  Claim C7. The guard list exposes its length \<open>N\<close> through \<open>sas_size\<close>; for every index
  \<open>i < N\<close>, \<open>sas_element\<close> yields the kind declared at position \<open>i\<close>; for every index
  \<open>i \<ge> N\<close> the lookup is rejected when the program is built (the \<open>static_assert\<close>), so
  it is a build error and no value of the run-time layer.
\<close>

theorem sas_size_and_element:
  "sas_size T = length T
   \<and> (\<forall>i < length T. sas_element i T = Inr (T ! i))
   \<and> (\<forall>i \<ge> length T. sas_element i T = Inl Sas_index_out_of_range)"
  by (simp add: sas_size_def sas_element_in_range sas_element_out_of_range)

theorem sas_size_and_element_witness:
  "sas_size [''a'', ''b'', ''c''] = 3
   \<and> sas_element 0 [''a'', ''b'', ''c''] = Inr ''a''
   \<and> sas_element 1 [''a'', ''b'', ''c''] = Inr ''b''
   \<and> sas_element 2 [''a'', ''b'', ''c''] = Inr ''c''
   \<and> sas_element 3 [''a'', ''b'', ''c''] = Inl Sas_index_out_of_range
   \<and> sas_element 7 [''a'', ''b'', ''c''] = Inl Sas_index_out_of_range"
  using sas_size_and_element [of "[''a'', ''b'', ''c'']"] by simp

section \<open>Order of acquisition and release\<close>

text \<open>
  Claim C1. For a guard list \<open>T\<close> of length \<open>N\<close> whose constructors do not throw, and
  positions \<open>i < j < N\<close>: \<open>rev_elts\<close> hands the reversed index pack \<open>N-1, ..., 0\<close> to
  \<open>stk_builder\<close>, the constructor of \<open>ScopedAcqStack\<close> runs the guards' constructors in
  declared order \<open>0, ..., N-1\<close> and pushes their handles in that order, and the acquire
  step of position \<open>i\<close> is observed strictly before the acquire step of position \<open>j\<close>.
\<close>

theorem acquire_order_is_declared_order:
  assumes "i < j" "j < length T" "no_throw thr T"
  shows "rev_elts T (sas_size T) [] = stk_builder T (rev [0..<length T])
         \<and> (\<exists>tr. ScopedAcqStack_ctor thr dord T lg = Built (handles T) (lg @ tr)
               \<and> tr = map (\<lambda>n. Acquire n (T ! n)) [0..<length T]
               \<and> observed_before (Acquire i (T ! i)) (Acquire j (T ! j)) tr)"
proof -
  let ?tr = "map acq (handles T)"
  from assms have ne: "T \<noteq> []" by auto
  have idx: "?tr ! i = Acquire i (T ! i)" "?tr ! j = Acquire j (T ! j)"
    using assms by (simp_all add: map_acq_handles)
  have "observed_before (?tr ! i) (?tr ! j) ?tr"
    using assms by (intro observed_before_nth distinct_acq_handles) (simp_all add: length_handles)
  then have "observed_before (Acquire i (T ! i)) (Acquire j (T ! j)) ?tr"
    by (simp only: idx)
  moreover have "rev_elts T (sas_size T) [] = stk_builder T (rev [0..<length T])"
    by (simp add: rev_elts_eq rev_elts_indices_eq sas_size_def)
  ultimately show ?thesis
    using ctor_built [OF ne assms(3), of dord lg] by (simp add: map_acq_handles)
qed

theorem acquire_order_is_declared_order_witness:
  "rev_elts [Res1_RAII, Res2_RAII, Res3_RAII] 3 [] = stk_builder [Res1_RAII, Res2_RAII, Res3_RAII] [2, 1, 0]
   \<and> ScopedAcqStack_ctor never_throws front_to_back [Res1_RAII, Res2_RAII, Res3_RAII] [] =
       Built [(0, Res1_RAII), (1, Res2_RAII), (2, Res3_RAII)]
             [Acquire 0 Res1_RAII, Acquire 1 Res2_RAII, Acquire 2 Res3_RAII]
   \<and> observed_before (Acquire 0 Res1_RAII) (Acquire 2 Res3_RAII)
        [Acquire 0 Res1_RAII, Acquire 1 Res2_RAII, Acquire 2 Res3_RAII]"
  using acquire_order_is_declared_order
    [of 0 2 "[Res1_RAII, Res2_RAII, Res3_RAII]" never_throws front_to_back "[]"]
  by (simp add: no_throw_def never_throws_def handles_def sas_size_def upt_rec numeral_nat)

text \<open>
  Claim C2. For a guard list \<open>T\<close> of length \<open>N\<close> whose constructors do not throw, and
  positions \<open>i < j < N\<close>: the destructor of the fully constructed \<open>ScopedAcqStack\<close> pops
  until the container is empty and releases the guards in the order \<open>N-1, ..., 0\<close>, so the
  release step of position \<open>j\<close> is observed strictly before the release step of position
  \<open>i\<close>, whatever the log held before and whatever the order of the container's own
  destructor.
\<close>

theorem release_order_is_reverse_order:
  assumes "i < j" "j < length T" "no_throw thr T"
  shows "\<exists>lg1 tr.
           ScopedAcqStack_ctor thr dord T lg = Built (handles T) lg1
           \<and> (\<forall>lg2. ScopedAcqStack_dtor (handles T) lg2 = Some \<lparr>stack = [], log = lg2 @ tr\<rparr>)
           \<and> tr = map (\<lambda>n. Release n (T ! n)) (rev [0..<length T])
           \<and> observed_before (Release j (T ! j)) (Release i (T ! i)) tr"
proof -
  let ?tr = "map rel (rev (handles T))"
  let ?N = "length T"
  from assms have ne: "T \<noteq> []" by auto
  have d: "distinct ?tr"
    using distinct_rel_handles [of T] by (simp add: rev_map [symmetric])
  have idx: "?tr ! (?N - 1 - j) = Release j (T ! j)" "?tr ! (?N - 1 - i) = Release i (T ! i)"
    using assms by (simp_all add: rev_map [symmetric] map_rel_handles rev_nth)
  have "observed_before (?tr ! (?N - 1 - j)) (?tr ! (?N - 1 - i)) ?tr"
    using assms by (intro observed_before_nth d) (simp_all add: length_handles)
  then have ob: "observed_before (Release j (T ! j)) (Release i (T ! i)) ?tr"
    by (simp only: idx)
  have tr: "?tr = map (\<lambda>n. Release n (T ! n)) (rev [0..<length T])"
    by (simp add: rev_map [symmetric] map_rel_handles)
  have "\<forall>lg2. ScopedAcqStack_dtor (handles T) lg2 = Some \<lparr>stack = [], log = lg2 @ ?tr\<rparr>"
    by (simp add: ScopedAcqStack_dtor_def dtor_loop_eq)
  with ob tr ctor_built [OF ne assms(3), of dord lg] show ?thesis by metis
qed

theorem release_order_is_reverse_order_witness:
  "ScopedAcqStack_ctor never_throws front_to_back [Res1_RAII, Res2_RAII, Res3_RAII] [] =
       Built [(0, Res1_RAII), (1, Res2_RAII), (2, Res3_RAII)]
             [Acquire 0 Res1_RAII, Acquire 1 Res2_RAII, Acquire 2 Res3_RAII]
   \<and> ScopedAcqStack_dtor [(0, Res1_RAII), (1, Res2_RAII), (2, Res3_RAII)] [] =
       Some \<lparr>stack = [], log = [Release 2 Res3_RAII, Release 1 Res2_RAII, Release 0 Res1_RAII]\<rparr>
   \<and> observed_before (Release 2 Res3_RAII) (Release 0 Res1_RAII)
        [Release 2 Res3_RAII, Release 1 Res2_RAII, Release 0 Res1_RAII]"
  using release_order_is_reverse_order
    [of 0 2 "[Res1_RAII, Res2_RAII, Res3_RAII]" never_throws front_to_back "[]"]
  by (auto simp: no_throw_def never_throws_def handles_def ScopedAcqStack_ctor_def sas_size_def
      stk_builder_body_def stack_push_def upt_rec numeral_nat)

section \<open>A guard whose constructor throws\<close>

text \<open>
  The failure path in general. When position \<open>k\<close> is the first whose acquire step fails,
  the constructor ends with the exception after the guards of positions \<open>0, ..., k-1\<close>
  were acquired in declared order and then all released, each exactly once, in the order
  \<open>dord\<close> in which the destructor of the container destroys the handles it holds.
\<close>

lemma partial_failure_releases_in_container_order:
  assumes "first_throw thr T k" "destroys_all dord"
  shows "\<exists>tr. ScopedAcqStack_ctor thr dord T lg = Thrown (lg @ tr)
           \<and> tr = map (\<lambda>n. Acquire n (T ! n)) [0..<k] @ [Acquire_failed k (T ! k)]
                    @ map rel (dord (map (\<lambda>n. (n, T ! n)) [0..<k]))
           \<and> (\<forall>i < k. count_list tr (Release i (T ! i)) = 1)"
proof -
  let ?hs = "handles (take k T)"
  let ?tr = "map acq ?hs @ [Acquire_failed k (T ! k)] @ map rel (dord ?hs)"
  from assms(1) have k: "k < length T" by (simp add: first_throw_def)
  then have hs: "?hs = map (\<lambda>n. (n, T ! n)) [0..<k]"
    by (simp add: handles_def min_def)
  have "count_list ?tr (Release i (T ! i)) = 1" if "i < k" for i
  proof -
    from that k have "count_list ?hs (i, take k T ! i) = 1"
      by (intro count_handles) simp
    with that show ?thesis
      by (simp add: count_rel destroys_all_count [OF assms(2)])
  qed
  then show ?thesis
    using ctor_thrown [OF assms(1), of dord lg] by (simp add: hs)
qed

text \<open>
  Claim C3. The claim: when the acquire step of position \<open>k\<close> fails, the guards of
  positions \<open>0, ..., k-1\<close> are released in reverse order, position \<open>k-1\<close> first, before the
  failure reaches the caller. The header means teardown to be last-in first-out (the
  comment on the move into \<open>stack_\<close>, the \<open>pop\<close> loop of the destructor, and the note in
  \<open>scoped_raii.hpp\<close> that the first guard is destroyed last), but it has no handler on
  this path: the exception unwinds the local \<open>rev\<close>, and the handles pushed so far are
  destroyed by the destructor of the container, not by the \<open>pop\<close> loop. Evaluated on
  three guards with a throw at position \<open>2\<close> and a container that destroys its two
  elements front to back, the constructor releases position \<open>0\<close> before position \<open>1\<close>:
  the release of position \<open>1\<close> is not observed before the release of position \<open>0\<close>.
\<close>

theorem partial_failure_releases_front_first:
  "ScopedAcqStack_ctor (throws_at 2) front_to_back [Res1_RAII, Res2_RAII, Res3_RAII] [] =
     Thrown [Acquire 0 Res1_RAII, Acquire 1 Res2_RAII, Acquire_failed 2 Res3_RAII,
             Release 0 Res1_RAII, Release 1 Res2_RAII]
   \<and> \<not> observed_before (Release 1 Res2_RAII) (Release 0 Res1_RAII)
        [Acquire 0 Res1_RAII, Acquire 1 Res2_RAII, Acquire_failed 2 Res3_RAII,
         Release 0 Res1_RAII, Release 1 Res2_RAII]
   \<and> observed_before (Release 0 Res1_RAII) (Release 1 Res2_RAII)
        [Acquire 0 Res1_RAII, Acquire 1 Res2_RAII, Acquire_failed 2 Res3_RAII,
         Release 0 Res1_RAII, Release 1 Res2_RAII]"
  by (simp add: ScopedAcqStack_ctor_def sas_size_def stk_builder_body_def stack_push_def
      sas_stack_dtor_def throws_at_def front_to_back_def observed_before_def)

text \<open>
  Claim C4. When position \<open>k\<close> is the first whose acquire step fails, the constructor
  ends with the exception and the enclosing block runs neither the user code nor the
  destructor; no acquire step of a position after \<open>k\<close> is attempted; every position
  before \<open>k\<close> is released exactly once and no other position is released; and for
  \<open>k = 1\<close> the events are the acquire of position \<open>0\<close>, the failed acquire of position
  \<open>1\<close> and the release of position \<open>0\<close>.
\<close>

theorem failed_acquire_stops_construction:
  assumes "first_throw thr T k" "destroys_all dord"
  shows "\<exists>tr. ScopedAcqStack_ctor thr dord T lg = Thrown (lg @ tr)
           \<and> ScopedAcqStack_scope thr dord T inside lg = Some (Scope_thrown (lg @ tr))
           \<and> (\<forall>j kind. k < j \<longrightarrow> Acquire j kind \<notin> set tr \<and> Acquire_failed j kind \<notin> set tr)
           \<and> (\<forall>i < k. count_list tr (Release i (T ! i)) = 1)
           \<and> (\<forall>j kind. k \<le> j \<longrightarrow> Release j kind \<notin> set tr)
           \<and> (k = 1 \<longrightarrow> tr = [Acquire 0 (T ! 0), Acquire_failed 1 (T ! 1), Release 0 (T ! 0)])"
proof -
  let ?hs = "handles (take k T)"
  let ?tr = "map acq ?hs @ [Acquire_failed k (T ! k)] @ map rel (dord ?hs)"
  from assms(1) have k: "k < length T" by (simp add: first_throw_def)
  have mem: "(j, kind) \<in> set ?hs \<Longrightarrow> j < k" for j kind
    by (simp add: handle_in_handles)
  have a: "Acquire j kind \<notin> set ?tr \<and> Acquire_failed j kind \<notin> set ?tr" if "k < j" for j kind
    using that mem [of j kind] by (auto simp: acq_in_acquires)
  have b: "count_list ?tr (Release i (T ! i)) = 1" if "i < k" for i
  proof -
    from that k have "count_list ?hs (i, take k T ! i) = 1"
      by (intro count_handles) simp
    with that show ?thesis
      by (simp add: count_rel destroys_all_count [OF assms(2)])
  qed
  have c: "Release j kind \<notin> set ?tr" if "k \<le> j" for j kind
    using that mem [of j kind] by (auto simp: rel_in_releases destroys_all_set [OF assms(2)])
  have d: "?tr = [Acquire 0 (T ! 0), Acquire_failed 1 (T ! 1), Release 0 (T ! 0)]" if "k = 1"
  proof -
    from that k have "?hs = [(0, T ! 0)]"
      by (cases T) (simp_all add: handles_def)
    with that show ?thesis by (simp add: destroys_all_single [OF assms(2)])
  qed
  show ?thesis
    using ctor_thrown [OF assms(1), of dord lg] scope_thrown [OF assms(1), of dord inside lg]
      a b c d
    by (intro exI [of _ ?tr]) simp
qed

theorem failed_acquire_stops_construction_witness:
  "first_throw (throws_at 1) [Res1_RAII, Res2_RAII, Res3_RAII] 1
   \<and> destroys_all (front_to_back :: res_kind handle list \<Rightarrow> res_kind handle list)
   \<and> ScopedAcqStack_ctor (throws_at 1) front_to_back [Res1_RAII, Res2_RAII, Res3_RAII] [] =
       Thrown [Acquire 0 Res1_RAII, Acquire_failed 1 Res2_RAII, Release 0 Res1_RAII]
   \<and> ScopedAcqStack_scope (throws_at 1) front_to_back [Res1_RAII, Res2_RAII, Res3_RAII]
         [Message ''inside the scope''] [] =
       Some (Scope_thrown [Acquire 0 Res1_RAII, Acquire_failed 1 Res2_RAII, Release 0 Res1_RAII])"
  using failed_acquire_stops_construction
    [of "throws_at 1" "[Res1_RAII, Res2_RAII, Res3_RAII]" 1 front_to_back "[]"
        "[Message ''inside the scope'']"]
  by (auto simp: first_throw_def throws_at_def destroys_all_front_to_back)

section \<open>One construct and destroy cycle\<close>

text \<open>
  Claim C5 says that for every \<open>N \<ge> 0\<close> constructing and then destroying one
  \<open>ScopedAcqStack\<close> runs every acquire and every release step exactly once. At \<open>N = 0\<close>
  there is nothing to construct and destroy: the constructor over the empty guard list
  does not build, and neither does the block around it.
\<close>

theorem no_cycle_for_empty_guard_list_counterexample:
  "ScopedAcqStack_ctor never_throws back_to_front ([] :: res_kind list) [] =
     Build_failed Stk_builder_incomplete
   \<and> ScopedAcqStack_scope never_throws back_to_front ([] :: res_kind list) [] [] =
     Some (Scope_build_failed Stk_builder_incomplete)"
  by (simp add: ScopedAcqStack_scope_def ScopedAcqStack_ctor_def sas_size_def)

text \<open>
  Claim C5, amended. For every guard list \<open>T\<close> of length \<open>N \<ge> 1\<close> whose constructors do
  not throw, a block that constructs and then destroys one \<open>ScopedAcqStack\<close> runs to its
  end and leaves no handle; its events are exactly \<open>2 * N\<close>, and among them the acquire
  step of every position occurs exactly once and so does its release step.
\<close>

theorem each_guard_acquired_and_released_once:
  assumes "T \<noteq> []" "no_throw thr T"
  shows "\<exists>tr. ScopedAcqStack_scope thr dord T [] lg = Some (Scope_done [] (lg @ tr))
           \<and> length tr = 2 * length T
           \<and> (\<forall>i < length T. count_list tr (Acquire i (T ! i)) = 1
                             \<and> count_list tr (Release i (T ! i)) = 1)"
proof -
  let ?tr = "map acq (handles T) @ map rel (rev (handles T))"
  have run: "ScopedAcqStack_scope thr dord T [] lg = Some (Scope_done [] (lg @ ?tr))"
    using scope_done [OF assms, of dord "[]" lg] by simp
  have len: "length ?tr = 2 * length T" by (simp add: length_handles)
  have cnt: "\<forall>i < length T. count_list ?tr (Acquire i (T ! i)) = 1
                           \<and> count_list ?tr (Release i (T ! i)) = 1"
    by (simp add: count_acq count_rel count_rev count_handles)
  from run len cnt show ?thesis by blast
qed

theorem each_guard_acquired_and_released_once_witness:
  "[Res1_RAII, Res2_RAII] \<noteq> [] \<and> no_throw never_throws [Res1_RAII, Res2_RAII]
   \<and> ScopedAcqStack_scope never_throws front_to_back [Res1_RAII, Res2_RAII] [] [] =
       Some (Scope_done [] [Acquire 0 Res1_RAII, Acquire 1 Res2_RAII,
                            Release 1 Res2_RAII, Release 0 Res1_RAII])
   \<and> (\<exists>tr. ScopedAcqStack_scope never_throws front_to_back [Res1_RAII, Res2_RAII] [] [] =
             Some (Scope_done [] ([] @ tr))
        \<and> length tr = 2 * length [Res1_RAII, Res2_RAII]
        \<and> (\<forall>i < length [Res1_RAII, Res2_RAII].
              count_list tr (Acquire i ([Res1_RAII, Res2_RAII] ! i)) = 1
              \<and> count_list tr (Release i ([Res1_RAII, Res2_RAII] ! i)) = 1))"
proof -
  have nt: "[Res1_RAII, Res2_RAII] \<noteq> []" "no_throw never_throws [Res1_RAII, Res2_RAII]"
    by (simp_all add: no_throw_def never_throws_def)
  have run: "ScopedAcqStack_scope never_throws front_to_back [Res1_RAII, Res2_RAII] [] [] =
     Some (Scope_done [] [Acquire 0 Res1_RAII, Acquire 1 Res2_RAII,
                          Release 1 Res2_RAII, Release 0 Res1_RAII])"
    by (simp add: scope_done [OF nt] handles_def)
  from each_guard_acquired_and_released_once [OF nt, of front_to_back "[]"] nt run
  show ?thesis by blast
qed

text \<open>
  Claim C6 says that a \<open>ScopedAcqStack\<close> over the empty guard list can be constructed and
  destroyed, with no side effect. The constructor of \<open>ScopedAcqStack<>\<close> declares a
  \<open>rev_elts<type, 0>\<close>, whose base class is \<open>stk_builder<type>\<close> with an empty index pack:
  the primary template, which the header declares and never defines. The block is
  rejected when the program is built; there is no object to construct or destroy.
\<close>

theorem empty_guard_list_counterexample:
  "ScopedAcqStack_scope never_throws front_to_back ([] :: res_kind list) [] [] =
     Some (Scope_build_failed Stk_builder_incomplete)
   \<and> ScopedAcqStack_scope never_throws front_to_back ([] :: res_kind list) [] [] \<noteq>
     Some (Scope_done [] [])"
  by (simp add: ScopedAcqStack_scope_def ScopedAcqStack_ctor_def sas_size_def)

text \<open>
  Claim C6, amended. For the empty guard list, \<open>sas_size\<close> is \<open>0\<close> and the constructor of
  \<open>ScopedAcqStack\<close> does not build: \<open>rev_elts\<close> reaches \<open>stk_builder\<close> with an empty index
  pack, which has no definition. Nothing runs, so there is no acquire or release step.
\<close>

theorem empty_guard_list_is_rejected:
  "sas_size ([] :: 'k list) = 0
   \<and> rev_elts ([] :: 'k list) (sas_size ([] :: 'k list)) [] = Inl Stk_builder_incomplete
   \<and> ScopedAcqStack_ctor thr dord ([] :: 'k list) lg = Build_failed Stk_builder_incomplete
   \<and> ScopedAcqStack_scope thr dord ([] :: 'k list) inside lg =
       Some (Scope_build_failed Stk_builder_incomplete)"
  by (simp add: ScopedAcqStack_scope_def ScopedAcqStack_ctor_def sas_size_def)

text \<open>
  Claim C8. For every guard list: if a block that constructs and destroys one
  \<open>ScopedAcqStack\<close> appends the events \<open>tr\<close> to the log, then the same block, begun after
  the first has ended, appends the same events \<open>tr\<close> again.
\<close>

theorem scope_is_repeatable:
  assumes "ScopedAcqStack_scope thr dord T inside lg = Some (Scope_done stk (lg @ tr))"
  shows "ScopedAcqStack_scope thr dord T inside (lg @ tr) = Some (Scope_done stk (lg @ tr @ tr))"
proof -
  from scope_done_iff [OF assms] have ok: "T \<noteq> []" "no_throw thr T" by simp_all
  from scope_done [OF ok, of dord inside lg] assms
  have "stk = []" "tr = map acq (handles T) @ inside @ map rel (rev (handles T))" by simp_all
  then show ?thesis by (simp add: scope_done [OF ok])
qed

theorem scope_is_repeatable_witness:
  "ScopedAcqStack_scope never_throws front_to_back [Res1_RAII, Res2_RAII] [] [] =
     Some (Scope_done [] ([] @ [Acquire 0 Res1_RAII, Acquire 1 Res2_RAII,
                                Release 1 Res2_RAII, Release 0 Res1_RAII]))
   \<and> ScopedAcqStack_scope never_throws front_to_back [Res1_RAII, Res2_RAII] []
        [Acquire 0 Res1_RAII, Acquire 1 Res2_RAII, Release 1 Res2_RAII, Release 0 Res1_RAII] =
     Some (Scope_done [] [Acquire 0 Res1_RAII, Acquire 1 Res2_RAII,
                          Release 1 Res2_RAII, Release 0 Res1_RAII,
                          Acquire 0 Res1_RAII, Acquire 1 Res2_RAII,
                          Release 1 Res2_RAII, Release 0 Res1_RAII])"
proof -
  have nt: "[Res1_RAII, Res2_RAII] \<noteq> []" "no_throw never_throws [Res1_RAII, Res2_RAII]"
    by (simp_all add: no_throw_def never_throws_def)
  have run: "ScopedAcqStack_scope never_throws front_to_back [Res1_RAII, Res2_RAII] [] [] =
     Some (Scope_done [] ([] @ [Acquire 0 Res1_RAII, Acquire 1 Res2_RAII,
                                Release 1 Res2_RAII, Release 0 Res1_RAII]))"
    by (simp add: scope_done [OF nt] handles_def)
  from scope_is_repeatable [OF run] run show ?thesis by simp
qed

section \<open>Repeated kinds, termination, and the unit test\<close>

text \<open>
  Claim C9. When a guard list whose constructors do not throw declares the same kind at
  two positions \<open>i < j\<close>, the constructed container holds one handle per position, \<open>N\<close>
  in all, with different handles at \<open>i\<close> and \<open>j\<close>; the acquire step runs once for
  position \<open>i\<close> and once for position \<open>j\<close>, and so does the release step in the
  destructor; and the number of acquire steps (and of release steps) of a kind is the
  number of positions that declare it.
\<close>

theorem repeated_kind_has_one_handle_per_position:
  assumes "no_throw thr T" "i < j" "j < length T" "T ! i = T ! j"
  shows "\<exists>tr rl.
           ScopedAcqStack_ctor thr dord T lg = Built (handles T) (lg @ tr)
           \<and> length (handles T) = length T
           \<and> handles T ! i = (i, T ! i) \<and> handles T ! j = (j, T ! i)
           \<and> handles T ! i \<noteq> handles T ! j
           \<and> count_list tr (Acquire i (T ! i)) = 1 \<and> count_list tr (Acquire j (T ! i)) = 1
           \<and> (\<forall>k. length (filter (is_acquire_of k) tr) = count_list T k)
           \<and> ScopedAcqStack_dtor (handles T) (lg @ tr) = Some \<lparr>stack = [], log = lg @ tr @ rl\<rparr>
           \<and> count_list rl (Release i (T ! i)) = 1 \<and> count_list rl (Release j (T ! i)) = 1
           \<and> (\<forall>k. length (filter (is_release_of k) rl) = count_list T k)"
proof -
  let ?tr = "map acq (handles T)"
  let ?rl = "map rel (rev (handles T))"
  from assms have ne: "T \<noteq> []" and i: "i < length T" by auto
  have hj: "count_list (handles T) (j, T ! i) = 1"
    using count_handles [OF assms(3)] by (simp add: assms(4))
  have built: "ScopedAcqStack_ctor thr dord T lg = Built (handles T) (lg @ ?tr)"
    by (rule ctor_built [OF ne assms(1)])
  have len: "length (handles T) = length T" by (rule length_handles)
  have hi: "handles T ! i = (i, T ! i)" using i by (rule handles_nth)
  have hj': "handles T ! j = (j, T ! i)" using handles_nth [OF assms(3)] assms(4) by simp
  have ne_h: "handles T ! i \<noteq> handles T ! j" using assms(2) hi hj' by simp
  have ai: "count_list ?tr (Acquire i (T ! i)) = 1"
    using count_handles [OF i] by (simp add: count_acq)
  have aj: "count_list ?tr (Acquire j (T ! i)) = 1"
    using hj by (simp add: count_acq)
  have ak: "\<forall>k. length (filter (is_acquire_of k) ?tr) = count_list T k"
    by (intro allI acquires_of_kind)
  have dt: "ScopedAcqStack_dtor (handles T) (lg @ ?tr) =
        Some \<lparr>stack = [], log = lg @ ?tr @ ?rl\<rparr>"
    by (simp add: ScopedAcqStack_dtor_def dtor_loop_eq)
  have ri: "count_list ?rl (Release i (T ! i)) = 1"
    using count_handles [OF i] by (simp add: count_rel count_rev)
  have rj: "count_list ?rl (Release j (T ! i)) = 1"
    using hj by (simp add: count_rel count_rev)
  have rk: "\<forall>k. length (filter (is_release_of k) ?rl) = count_list T k"
    by (intro allI releases_of_kind)
  from built len hi hj' ne_h ai aj ak dt ri rj rk show ?thesis by blast
qed

theorem repeated_kind_has_one_handle_per_position_witness:
  "ScopedAcqStack_ctor never_throws front_to_back [Res1_RAII, Res2_RAII, Res1_RAII] [] =
     Built [(0, Res1_RAII), (1, Res2_RAII), (2, Res1_RAII)]
           [Acquire 0 Res1_RAII, Acquire 1 Res2_RAII, Acquire 2 Res1_RAII]
   \<and> no_throw never_throws [Res1_RAII, Res2_RAII, Res1_RAII]
   \<and> [Res1_RAII, Res2_RAII, Res1_RAII] ! 0 = [Res1_RAII, Res2_RAII, Res1_RAII] ! 2
   \<and> length (filter (is_acquire_of Res1_RAII)
        [Acquire 0 Res1_RAII, Acquire 1 Res2_RAII, Acquire 2 Res1_RAII]) = 2
   \<and> ScopedAcqStack_dtor [(0, Res1_RAII), (1, Res2_RAII), (2, Res1_RAII)]
        [Acquire 0 Res1_RAII, Acquire 1 Res2_RAII, Acquire 2 Res1_RAII] =
      Some \<lparr>stack = [], log = [Acquire 0 Res1_RAII, Acquire 1 Res2_RAII, Acquire 2 Res1_RAII,
                               Release 2 Res1_RAII, Release 1 Res2_RAII, Release 0 Res1_RAII]\<rparr>"
proof -
  have nt: "no_throw never_throws [Res1_RAII, Res2_RAII, Res1_RAII]"
    by (simp add: no_throw_def never_throws_def)
  have hs: "handles [Res1_RAII, Res2_RAII, Res1_RAII] =
      [(0, Res1_RAII), (1, Res2_RAII), (2, Res1_RAII)]"
    by (simp add: handles_def upt_rec numeral_nat)
  from repeated_kind_has_one_handle_per_position
    [of never_throws "[Res1_RAII, Res2_RAII, Res1_RAII]" 0 2 front_to_back "[]", OF nt]
  obtain tr rl where
    r: "ScopedAcqStack_ctor never_throws front_to_back [Res1_RAII, Res2_RAII, Res1_RAII] [] =
          Built (handles [Res1_RAII, Res2_RAII, Res1_RAII]) ([] @ tr)"
       "length (filter (is_acquire_of Res1_RAII) tr) = count_list [Res1_RAII, Res2_RAII, Res1_RAII] Res1_RAII"
       "ScopedAcqStack_dtor (handles [Res1_RAII, Res2_RAII, Res1_RAII]) ([] @ tr) =
          Some \<lparr>stack = [], log = [] @ tr @ rl\<rparr>"
    by auto
  have tr: "tr = [Acquire 0 Res1_RAII, Acquire 1 Res2_RAII, Acquire 2 Res1_RAII]"
    using r(1) by (simp add: ctor_built nt hs)
  have rl: "rl = [Release 2 Res1_RAII, Release 1 Res2_RAII, Release 0 Res1_RAII]"
    using r(3) by (simp add: ScopedAcqStack_dtor_def dtor_loop_eq hs tr)
  from r nt show ?thesis by (simp add: hs tr rl)
qed

text \<open>
  Claim C10. The \<open>pop\<close> loop of the destructor returns from every state: it ends with an
  empty container after appending one release event per handle held, top first; one
  iteration on a non-empty container removes exactly one handle and logs exactly one
  release; and on the container of a fully constructed stack of \<open>N\<close> guards it logs
  exactly \<open>N\<close> releases.
\<close>

theorem destructor_terminates:
  "(\<exists>s'. dtor_loop s = Some s' \<and> stack_empty s'
         \<and> log s' = log s @ map rel (rev (stack s))
         \<and> length (log s') = length (log s) + length (stack s))
   \<and> (\<not> stack_empty s \<longrightarrow>
         length (stack (stack_pop s)) + 1 = length (stack s)
         \<and> log (stack_pop s) = log s @ [rel (last (stack s))])
   \<and> (T \<noteq> [] \<and> no_throw thr T \<longrightarrow>
         (\<exists>lg1 s'. ScopedAcqStack_ctor thr dord T lg = Built (handles T) lg1
            \<and> ScopedAcqStack_dtor (handles T) lg1 = Some s' \<and> stack s' = []
            \<and> length (log s') = length lg1 + length T))"
proof (intro conjI impI)
  show "\<exists>s'. dtor_loop s = Some s' \<and> stack_empty s'
         \<and> log s' = log s @ map rel (rev (stack s))
         \<and> length (log s') = length (log s) + length (stack s)"
    by (simp add: dtor_loop_eq stack_empty_def)
next
  assume "\<not> stack_empty s"
  then show "length (stack (stack_pop s)) + 1 = length (stack s)"
    by (simp add: stack_empty_def stack_pop_def)
next
  show "log (stack_pop s) = log s @ [rel (last (stack s))]"
    by (simp add: stack_pop_def)
next
  assume "T \<noteq> [] \<and> no_throw thr T"
  then show "\<exists>lg1 s'. ScopedAcqStack_ctor thr dord T lg = Built (handles T) lg1
            \<and> ScopedAcqStack_dtor (handles T) lg1 = Some s' \<and> stack s' = []
            \<and> length (log s') = length lg1 + length T"
    by (simp add: ctor_built ScopedAcqStack_dtor_def dtor_loop_eq length_handles)
qed

theorem destructor_terminates_witness:
  "dtor_loop \<lparr>stack = [(0, Res1_RAII), (1, Res2_RAII), (2, Res3_RAII)], log = []\<rparr> =
     Some \<lparr>stack = [], log = [Release 2 Res3_RAII, Release 1 Res2_RAII, Release 0 Res1_RAII]\<rparr>
   \<and> \<not> stack_empty \<lparr>stack = [(0, Res1_RAII), (1, Res2_RAII), (2, Res3_RAII)], log = []\<rparr>
   \<and> stack_pop \<lparr>stack = [(0, Res1_RAII), (1, Res2_RAII), (2, Res3_RAII)], log = []\<rparr> =
       \<lparr>stack = [(0, Res1_RAII), (1, Res2_RAII)], log = [Release 2 Res3_RAII]\<rparr>
   \<and> [Res1_RAII, Res2_RAII, Res3_RAII] \<noteq> []
   \<and> no_throw never_throws [Res1_RAII, Res2_RAII, Res3_RAII]"
  using destructor_terminates
    [of "\<lparr>stack = [(0, Res1_RAII), (1, Res2_RAII), (2, Res3_RAII)], log = []\<rparr>"
        "[Res1_RAII, Res2_RAII, Res3_RAII]" never_throws front_to_back "[]"]
  by (auto simp: stack_empty_def stack_pop_def no_throw_def never_throws_def)

text \<open>
  The model reproduces the expectation of the unit test: the messages of the block, joined
  by \<open>get_messages\<close>, are \<open>misc_scoped_acq_result\<close>.
\<close>

lemma test_scoped_acq_passes: "test_scoped_acq dord = Some misc_scoped_acq_result"
proof -
  have nt: "[Res1_RAII, Res2_RAII, Res3_RAII] \<noteq> []"
    "no_throw (\<lambda>I k. False) [Res1_RAII, Res2_RAII, Res3_RAII]"
    by (simp_all add: no_throw_def)
  show ?thesis
    by (simp add: test_scoped_acq_def scope_done [OF nt] handles_def get_messages_def
        misc_scoped_acq_result_def upt_rec numeral_nat)
qed

end
